theory Spec2Isabelle
  imports
    Main
    "HOL-Library.Sublist"
    "HOL-Library.Char_ord"
    "HOL-Library.List_Lexorder"
    "HOL-Library.Multiset"
    "HOL-Library.AList"
begin

section \<open>godotenv: the encoder and the file-loading operations of godotenv.go\<close>

text \<open>
  A Go \<^verbatim>\<open>string\<close> is a sequence of bytes, and so is an Isabelle \<^typ>\<open>string\<close>
  (a list of 8-bit characters). Comparison of Go strings is byte-wise lexicographic,
  which is the order that \<^theory_text>\<open>Char_ord\<close> and \<^theory_text>\<open>List_Lexorder\<close> put on
  \<^typ>\<open>string\<close>.

  A Go \<^verbatim>\<open>map[string]string\<close> that the code ranges over is given by its entries in
  the order the \<^verbatim>\<open>range\<close> loop visits them (an order Go leaves unspecified): a list
  of pairs whose keys are distinct. A map that is only written and returned is a
  partial function.
\<close>

type_synonym gomap = "(string \<times> string) list"

subsection \<open>Characters and library functions of package strings, strconv and fmt\<close>

definition backslash :: char where
  "backslash = CHR 0x5C"

definition newline :: char where
  "newline = CHR 0x0A"

definition carriage_return :: char where
  "carriage_return = CHR 0x0D"

definition dquote :: char where
  "dquote = CHR 0x22"

definition backtick :: char where
  "backtick = CHR 0x60"

definition nul :: char where
  "nul = CHR 0x00"

text \<open>
  \<^verbatim>\<open>strings.Replace(s, old, new, -1)\<close>: every non-overlapping occurrence of \<open>old\<close>,
  found from the left, is replaced by \<open>new\<close>. For an empty \<open>old\<close> Go puts \<open>new\<close>
  in front of every UTF-8 sequence and at the end; the model does so byte by byte.
\<close>

fun Replace :: "string \<Rightarrow> string \<Rightarrow> string \<Rightarrow> string" where
  "Replace [] old new = (if old = [] then new else [])"
| "Replace (c # s) old new =
     (if old = [] then new @ c # Replace s old new
      else if prefix old (c # s) then new @ Replace (drop (length old) (c # s)) old new
      else c # Replace s old new)"

text \<open>
  \<^verbatim>\<open>strings.Split(s, sep)\<close>: the pieces of \<open>s\<close> between the occurrences of \<open>sep\<close>; the
  result always has a first element. For an empty \<open>sep\<close> Go cuts after every UTF-8
  sequence; the model cuts after every byte.
\<close>

fun Split :: "string \<Rightarrow> string \<Rightarrow> string list" where
  "Split [] sep = (if sep = [] then [] else [[]])"
| "Split (c # s) sep =
     (if sep = [] then [c] # Split s sep
      else if prefix sep (c # s) then [] # Split (drop (length sep) (c # s)) sep
      else (case Split s sep of [] \<Rightarrow> [[c]] | p # ps \<Rightarrow> (c # p) # ps))"

text \<open>\<^verbatim>\<open>strings.Join(elems, sep)\<close>.\<close>

fun Join :: "string list \<Rightarrow> string \<Rightarrow> string" where
  "Join [] sep = []"
| "Join [a] sep = a"
| "Join (a # b # elems) sep = a @ sep @ Join (b # elems) sep"

text \<open>
  \<^verbatim>\<open>strconv.Atoi\<close> where \<^verbatim>\<open>int\<close> has 64 bits: an optional sign, then one or more
  decimal digits and nothing else, and the value must lie in \<open>-2^63 .. 2^63 - 1\<close>;
  everything else is an error (\<open>None\<close>).
\<close>

definition is_digit :: "char \<Rightarrow> bool" where
  "is_digit ch = (CHR ''0'' \<le> ch \<and> ch \<le> CHR ''9'')"

fun parse_digits :: "nat \<Rightarrow> string \<Rightarrow> nat option" where
  "parse_digits n [] = Some n"
| "parse_digits n (ch # s) =
     (if is_digit ch then parse_digits (n * 10 + (of_char ch - of_char (CHR ''0''))) s
      else None)"

definition Atoi :: "string \<Rightarrow> int option" where
  "Atoi s0 =
     (let s = (if s0 \<noteq> [] \<and> (hd s0 = CHR ''-'' \<or> hd s0 = CHR ''+'') then tl s0 else s0)
      in if s = [] then None
         else (case parse_digits 0 s of
                 None \<Rightarrow> None
               | Some n \<Rightarrow>
                   (let d = (if hd s0 = CHR ''-'' then - int n else int n)
                    in if - (2 ^ 63) \<le> d \<and> d < 2 ^ 63 then Some d else None)))"

text \<open>The verb \<^verbatim>\<open>%d\<close> of \<^verbatim>\<open>fmt.Sprintf\<close>: decimal digits, with a minus sign when negative.\<close>

fun digits_of :: "nat \<Rightarrow> string" where
  "digits_of n =
     (if n < 10 then [char_of (of_char (CHR ''0'') + n)]
      else digits_of (n div 10) @ [char_of (of_char (CHR ''0'') + n mod 10)])"

declare digits_of.simps [simp del]

definition format_int :: "int \<Rightarrow> string" where
  "format_int d = (if d < 0 then CHR ''-'' # digits_of (nat (- d)) else digits_of (nat d))"

subsection \<open>The encoder: doubleQuoteEscape and Marshal\<close>

datatype error =
    noEnvFileLoadedErr
  | PathError string
  | CopyError string
  | SyntaxError string
  | EINVAL

definition doubleQuoteSpecialChars :: string where
  "doubleQuoteSpecialChars =
     [backslash, newline, carriage_return, dquote, CHR ''!'', CHR ''$'', backtick]"

text \<open>
  The body of the loop of \<^verbatim>\<open>doubleQuoteEscape\<close> for one character \<open>c\<close> of
  \<^verbatim>\<open>doubleQuoteSpecialChars\<close>, and the loop itself.
\<close>

definition toReplace :: "char \<Rightarrow> string" where
  \<comment> \<open>the assignment for the carriage return is the last one made, so it is tested first\<close>
  "toReplace c =
     (if c = carriage_return then [backslash, CHR ''r'']
      else if c = newline then [backslash, CHR ''n'']
      else [backslash, c])"

definition doubleQuoteEscape :: "string \<Rightarrow> string" where
  "doubleQuoteEscape line =
     fold (\<lambda>c line. Replace line [c] (toReplace c)) doubleQuoteSpecialChars line"

text \<open>
  \<^verbatim>\<open>Marshal\<close>. \<open>marshal_line\<close> is the body of its loop, the line appended for the
  entry \<open>(k, v)\<close>; the loop visits the entries in the order the map is ranged over,
  then come \<^verbatim>\<open>sort.Strings\<close> and \<^verbatim>\<open>strings.Join\<close>. The error returned is always nil.
\<close>

definition marshal_line :: "string \<times> string \<Rightarrow> string" where
  "marshal_line = (\<lambda>(k, v).
     (case Atoi v of
        Some d \<Rightarrow> k @ ''='' @ format_int d
      | None \<Rightarrow> k @ ''='' @ [dquote] @ doubleQuoteEscape v @ [dquote]))"

definition Marshal :: "gomap \<Rightarrow> string \<times> error option" where
  "Marshal envMap =
     (let lines = map marshal_line envMap
      in (Join (sort lines) [newline], None))"

text \<open>
  The single pass that the specification describes for the quoted form: every
  character is looked at once, from left to right, and a special character is
  replaced by its two-character escape.
\<close>

definition escape_char :: "char \<Rightarrow> string" where
  "escape_char c =
     (if c = newline then [backslash, CHR ''n'']
      else if c = carriage_return then [backslash, CHR ''r'']
      else if c \<in> {backslash, dquote, CHR ''!'', CHR ''$'', backtick} then [backslash, c]
      else [c])"

definition single_pass_escape :: "string \<Rightarrow> string" where
  "single_pass_escape v = concat (map escape_char v)"

subsection \<open>The process environment\<close>

text \<open>
  The environment of the process is the list of its entries \<^verbatim>\<open>KEY=value\<close>, as package
  \<^verbatim>\<open>os\<close> keeps it. \<^verbatim>\<open>os.Environ\<close> lists the entries that are not empty.
  \<^verbatim>\<open>os.LookupEnv\<close> finds the first entry \<^verbatim>\<open>key=...\<close> and returns what follows the
  first \<^verbatim>\<open>=\<close>. \<^verbatim>\<open>os.Setenv\<close> refuses (with \<^verbatim>\<open>EINVAL\<close>, changing nothing) an empty
  key, a key holding \<^verbatim>\<open>=\<close> or a NUL byte, and a value holding a NUL byte; otherwise it
  overwrites the entry of the key, or appends a new entry.
\<close>

type_synonym environ = "string list"

definition Environ :: "environ \<Rightarrow> string list" where
  "Environ env = filter (\<lambda>entry. entry \<noteq> []) env"

definition entry_key :: "string \<Rightarrow> string" where
  "entry_key entry = takeWhile (\<lambda>ch. ch \<noteq> CHR ''='') entry"

definition entry_value :: "string \<Rightarrow> string" where
  "entry_value entry = tl (dropWhile (\<lambda>ch. ch \<noteq> CHR ''='') entry)"

definition is_entry_of :: "string \<Rightarrow> string \<Rightarrow> bool" where
  "is_entry_of key entry = (CHR ''='' \<in> set entry \<and> entry_key entry = key)"

fun LookupEnv :: "environ \<Rightarrow> string \<Rightarrow> string option" where
  "LookupEnv [] key = None"
| "LookupEnv (entry # env) key =
     (if key \<noteq> [] \<and> is_entry_of key entry then Some (entry_value entry)
      else LookupEnv env key)"

fun put_entry :: "string \<Rightarrow> string \<Rightarrow> environ \<Rightarrow> environ" where
  "put_entry key value [] = [key @ ''='' @ value]"
| "put_entry key value (entry # env) =
     (if is_entry_of key entry then (key @ ''='' @ value) # env
      else entry # put_entry key value env)"

definition Setenv_accepts :: "string \<Rightarrow> string \<Rightarrow> bool" where
  "Setenv_accepts key value =
     (key \<noteq> [] \<and> CHR ''='' \<notin> set key \<and> nul \<notin> set key \<and> nul \<notin> set value)"

definition Setenv :: "string \<Rightarrow> string \<Rightarrow> environ \<Rightarrow> error option \<times> environ" where
  "Setenv key value env =
     (if Setenv_accepts key value then (None, put_entry key value env) else (Some EINVAL, env))"

subsection \<open>Files and the decoder\<close>

text \<open>
  The file system is what \<^verbatim>\<open>os.Open(path.Join(dir, filename))\<close> gives for each
  \<open>dir\<close> and \<open>filename\<close>: an error, or the open file. The open file, an \<^verbatim>\<open>io.Reader\<close>, is what \<^verbatim>\<open>io.Copy\<close> gets
  from it: an error, or all its bytes.

  \<^verbatim>\<open>parseBytes(src, out)\<close>, the decoder itself, is in a file of the package that is not
  among the sources at hand. It is a parameter \<open>parseBytes\<close> of every function that
  reaches it: any function of the bytes, of the map \<open>out\<close> it fills and of the
  environment (which it may read for variable expansion, and does not change), giving
  the map as it leaves it and an error or nil.
\<close>

type_synonym reader = "error + string"

type_synonym filesystem = "string \<Rightarrow> string \<Rightarrow> error + reader"

type_synonym decoder = "environ \<Rightarrow> string \<Rightarrow> gomap \<Rightarrow> gomap \<times> error option"

definition UnmarshalBytes :: "decoder \<Rightarrow> environ \<Rightarrow> string \<Rightarrow> gomap \<times> error option" where
  "UnmarshalBytes parseBytes env src = parseBytes env src []"

definition Unmarshal :: "decoder \<Rightarrow> environ \<Rightarrow> string \<Rightarrow> gomap \<times> error option" where
  "Unmarshal parseBytes env str = UnmarshalBytes parseBytes env str"

text \<open>A map result is \<open>None\<close> where the Go function returns a nil map.\<close>

definition Parse :: "decoder \<Rightarrow> environ \<Rightarrow> reader \<Rightarrow> gomap option \<times> error option" where
  "Parse parseBytes env r =
     (case r of
        Inl err \<Rightarrow> (None, Some err)
      | Inr buf \<Rightarrow> (case UnmarshalBytes parseBytes env buf of (out, err) \<Rightarrow> (Some out, err)))"

definition readFile ::
  "decoder \<Rightarrow> filesystem \<Rightarrow> environ \<Rightarrow> string \<Rightarrow> string \<Rightarrow> gomap option \<times> error option" where
  "readFile parseBytes fs env dir filename =
     (case fs dir filename of
        Inl err \<Rightarrow> (None, Some err)
      | Inr r \<Rightarrow> Parse parseBytes env r)"

text \<open>Ranging over a nil map visits nothing.\<close>

definition entries :: "gomap option \<Rightarrow> gomap" where
  "entries envMap = (case envMap of None \<Rightarrow> [] | Some m \<Rightarrow> m)"

definition filenamesOrDefault :: "string list \<Rightarrow> string list" where
  "filenamesOrDefault filenames = (if length filenames = 0 then [''.env''] else filenames)"

subsection \<open>loadFile, Load, Overload and Read\<close>

text \<open>
  \<^verbatim>\<open>loadFile\<close> returns its error and the environment it leaves. \<open>currentEnv\<close> is the
  set of the keys that the map \<^verbatim>\<open>currentEnv\<close> of the source sends to true; the error
  of \<^verbatim>\<open>os.Setenv\<close> is dropped, as in the source.
\<close>

definition currentEnv :: "environ \<Rightarrow> string set" where
  "currentEnv env = set (map (\<lambda>rawEnvLine. hd (Split rawEnvLine ''='')) (Environ env))"

text \<open>
  The body of the loop of \<^verbatim>\<open>loadFile\<close> over the decoded entries: \<open>present\<close> is the set
  \<^verbatim>\<open>currentEnv\<close>, taken once before the loop.
\<close>

definition set_entry :: "string set \<Rightarrow> bool \<Rightarrow> string \<times> string \<Rightarrow> environ \<Rightarrow> environ" where
  "set_entry present overload =
     (\<lambda>(key, value) env.
        if key \<notin> present \<or> overload then snd (Setenv key value env) else env)"

definition loadFile ::
  "decoder \<Rightarrow> filesystem \<Rightarrow> string \<Rightarrow> string \<Rightarrow> bool \<Rightarrow> environ \<Rightarrow> error option \<times> environ" where
  "loadFile parseBytes fs dir filename overload env =
     (case readFile parseBytes fs env dir filename of
        (envMap, Some err) \<Rightarrow> (Some err, env)
      | (envMap, None) \<Rightarrow>
          (None, fold (set_entry (currentEnv env) overload) (entries envMap) env))"

text \<open>
  The loops of \<^verbatim>\<open>LoadFrom\<close>, \<^verbatim>\<open>OverloadFrom\<close> and \<^verbatim>\<open>ReadFrom\<close> over the file names that
  are left, with the variable \<^verbatim>\<open>loaded\<close> and the environment (for \<^verbatim>\<open>ReadFrom\<close>: the
  map \<^verbatim>\<open>envMap\<close>) as they stand.
\<close>

fun LoadFrom_loop ::
  "decoder \<Rightarrow> filesystem \<Rightarrow> string \<Rightarrow> bool \<Rightarrow> string list \<Rightarrow> bool \<Rightarrow> environ
     \<Rightarrow> error option \<times> environ" where
  "LoadFrom_loop parseBytes fs dir strict [] loaded env =
     (if \<not> loaded then (Some noEnvFileLoadedErr, env) else (None, env))"
| "LoadFrom_loop parseBytes fs dir strict (filename # filenames) loaded env =
     (case loadFile parseBytes fs dir filename False env of
        (innerErr, env') \<Rightarrow>
          if innerErr \<noteq> None \<and> strict then (innerErr, env')
          else LoadFrom_loop parseBytes fs dir strict filenames
                 (if innerErr = None then True else loaded) env')"

definition LoadFrom ::
  "decoder \<Rightarrow> filesystem \<Rightarrow> string \<Rightarrow> bool \<Rightarrow> string list \<Rightarrow> environ
     \<Rightarrow> error option \<times> environ" where
  "LoadFrom parseBytes fs dir strict filenames env =
     LoadFrom_loop parseBytes fs dir strict (filenamesOrDefault filenames) False env"

definition Load ::
  "decoder \<Rightarrow> filesystem \<Rightarrow> bool \<Rightarrow> string list \<Rightarrow> environ \<Rightarrow> error option \<times> environ" where
  "Load parseBytes fs strict filenames env = LoadFrom parseBytes fs ''./'' strict filenames env"

fun OverloadFrom_loop ::
  "decoder \<Rightarrow> filesystem \<Rightarrow> string \<Rightarrow> bool \<Rightarrow> string list \<Rightarrow> bool \<Rightarrow> environ
     \<Rightarrow> error option \<times> environ" where
  "OverloadFrom_loop parseBytes fs dir strict [] loaded env =
     (if \<not> loaded then (Some noEnvFileLoadedErr, env) else (None, env))"
| "OverloadFrom_loop parseBytes fs dir strict (filename # filenames) loaded env =
     (case loadFile parseBytes fs dir filename True env of
        (innerErr, env') \<Rightarrow>
          if innerErr \<noteq> None \<and> strict then (innerErr, env')
          else if innerErr \<noteq> None \<and> \<not> strict
            then OverloadFrom_loop parseBytes fs dir strict filenames loaded env'
          else OverloadFrom_loop parseBytes fs dir strict filenames True env')"

definition OverloadFrom ::
  "decoder \<Rightarrow> filesystem \<Rightarrow> string \<Rightarrow> bool \<Rightarrow> string list \<Rightarrow> environ
     \<Rightarrow> error option \<times> environ" where
  "OverloadFrom parseBytes fs dir strict filenames env =
     OverloadFrom_loop parseBytes fs dir strict (filenamesOrDefault filenames) False env"

definition Overload ::
  "decoder \<Rightarrow> filesystem \<Rightarrow> bool \<Rightarrow> string list \<Rightarrow> environ \<Rightarrow> error option \<times> environ" where
  "Overload parseBytes fs strict filenames env =
     OverloadFrom parseBytes fs ''./'' strict filenames env"

text \<open>The body of the loop of \<^verbatim>\<open>ReadFrom\<close> over the entries of one file.\<close>

definition store_entry :: "string \<times> string \<Rightarrow> (string \<rightharpoonup> string) \<Rightarrow> (string \<rightharpoonup> string)" where
  "store_entry = (\<lambda>(key, value) envMap. envMap(key \<mapsto> value))"

fun ReadFrom_loop ::
  "decoder \<Rightarrow> filesystem \<Rightarrow> environ \<Rightarrow> string \<Rightarrow> bool \<Rightarrow> string list \<Rightarrow> bool
     \<Rightarrow> (string \<rightharpoonup> string) \<Rightarrow> (string \<rightharpoonup> string) option \<times> error option" where
  "ReadFrom_loop parseBytes fs env dir strict [] loaded envMap =
     (if \<not> loaded then (Some envMap, Some noEnvFileLoadedErr) else (Some envMap, None))"
| "ReadFrom_loop parseBytes fs env dir strict (filename # filenames) loaded envMap =
     (case readFile parseBytes fs env dir filename of
        (individualEnvMap, individualErr) \<Rightarrow>
          if individualErr \<noteq> None \<and> strict then (Some envMap, individualErr)
          else if individualErr \<noteq> None \<and> \<not> strict
            then ReadFrom_loop parseBytes fs env dir strict filenames loaded envMap
          else ReadFrom_loop parseBytes fs env dir strict filenames True
                 (fold store_entry (entries individualEnvMap) envMap))"

definition ReadFrom ::
  "decoder \<Rightarrow> filesystem \<Rightarrow> environ \<Rightarrow> string \<Rightarrow> bool \<Rightarrow> string list
     \<Rightarrow> (string \<rightharpoonup> string) option \<times> error option" where
  "ReadFrom parseBytes fs env dir strict filenames =
     ReadFrom_loop parseBytes fs env dir strict (filenamesOrDefault filenames) False Map.empty"

definition Read ::
  "decoder \<Rightarrow> filesystem \<Rightarrow> environ \<Rightarrow> bool \<Rightarrow> string list
     \<Rightarrow> (string \<rightharpoonup> string) option \<times> error option" where
  "Read parseBytes fs env strict filenames = ReadFrom parseBytes fs env ''./'' strict filenames"

subsection \<open>Vocabulary for the statements about several files\<close>

text \<open>
  One turn of each loop, as a function of the file name and of the state of the loop
  (the environment, or the map \<^verbatim>\<open>envMap\<close> of \<^verbatim>\<open>ReadFrom\<close>) that returns the error
  of the file and the state it leaves.
\<close>

definition load_step ::
  "decoder \<Rightarrow> filesystem \<Rightarrow> string \<Rightarrow> bool \<Rightarrow> string \<Rightarrow> environ \<Rightarrow> error option \<times> environ" where
  "load_step parseBytes fs dir overload filename env =
     loadFile parseBytes fs dir filename overload env"

definition read_step ::
  "decoder \<Rightarrow> filesystem \<Rightarrow> environ \<Rightarrow> string \<Rightarrow> string \<Rightarrow> (string \<rightharpoonup> string)
     \<Rightarrow> error option \<times> (string \<rightharpoonup> string)" where
  "read_step parseBytes fs env dir filename envMap =
     (case readFile parseBytes fs env dir filename of
        (individualEnvMap, Some err) \<Rightarrow> (Some err, envMap)
      | (individualEnvMap, None) \<Rightarrow>
          (None, fold store_entry (entries individualEnvMap) envMap))"

text \<open>
  \<open>state_after step files s\<close> is the state after the turns of all the \<open>files\<close>, one
  after the other, from the state \<open>s\<close>. \<open>every_file_ok step files s\<close> says that each
  file, when its turn comes, gives no error, and \<open>some_file_ok step files s\<close> that at
  least one does.
\<close>

definition state_after :: "(string \<Rightarrow> 's \<Rightarrow> error option \<times> 's) \<Rightarrow> string list \<Rightarrow> 's \<Rightarrow> 's" where
  "state_after step files s = fold (\<lambda>filename s. snd (step filename s)) files s"

fun every_file_ok :: "(string \<Rightarrow> 's \<Rightarrow> error option \<times> 's) \<Rightarrow> string list \<Rightarrow> 's \<Rightarrow> bool" where
  "every_file_ok step [] s = True"
| "every_file_ok step (filename # files) s =
     (fst (step filename s) = None \<and> every_file_ok step files (snd (step filename s)))"

fun some_file_ok :: "(string \<Rightarrow> 's \<Rightarrow> error option \<times> 's) \<Rightarrow> string list \<Rightarrow> 's \<Rightarrow> bool" where
  "some_file_ok step [] s = False"
| "some_file_ok step (filename # files) s =
     (fst (step filename s) = None \<or> some_file_ok step files (snd (step filename s)))"

text \<open>The shape that the three loops share; it serves in the proofs only.\<close>

fun batch ::
  "(string \<Rightarrow> 's \<Rightarrow> error option \<times> 's) \<Rightarrow> bool \<Rightarrow> string list \<Rightarrow> bool \<Rightarrow> 's
     \<Rightarrow> error option \<times> 's" where
  "batch step strict [] loaded s =
     (if \<not> loaded then (Some noEnvFileLoadedErr, s) else (None, s))"
| "batch step strict (filename # files) loaded s =
     (case step filename s of
        (None, s') \<Rightarrow> batch step strict files True s'
      | (Some err, s') \<Rightarrow>
          if strict then (Some err, s') else batch step strict files loaded s')"

text \<open>The keys of the entries that a file gives.\<close>

definition keys_of :: "gomap option \<Rightarrow> string set" where
  "keys_of envMap = fst ` set (entries envMap)"

subsection \<open>A decoder and a file system for the closed examples\<close>

text \<open>
  Modelled from the spec: \<^verbatim>\<open>parseBytes\<close> is not among the sources. The theorems below
  hold for every decoder; the closed examples need one, and use this decoder for the
  plain part of the format that section 4.1 of the specification describes: every line
  is \<^verbatim>\<open>KEY=value\<close>, cut at the first \<^verbatim>\<open>=\<close>; an empty line is skipped; a later
  assignment of a key overwrites the earlier one; a line without \<^verbatim>\<open>=\<close> or with an empty
  key is an error that ends the decoding, leaving in \<open>out\<close> what was stored before.
\<close>

fun decode_lines :: "string list \<Rightarrow> gomap \<Rightarrow> gomap \<times> error option" where
  "decode_lines [] out = (out, None)"
| "decode_lines (line # lines) out =
     (if line = [] then decode_lines lines out
      else if CHR ''='' \<notin> set line \<or> entry_key line = [] then (out, Some (SyntaxError line))
      else decode_lines lines (AList.update (entry_key line) (entry_value line) out))"

definition plain_decoder :: decoder where
  "plain_decoder env src out = decode_lines (Split src [newline]) out"

text \<open>
  Three files: \<^verbatim>\<open>a.env\<close> and \<^verbatim>\<open>b.env\<close> both define \<^verbatim>\<open>X\<close>, and the second line of
  \<^verbatim>\<open>bad.env\<close> has no separator. No other file can be opened.
\<close>

definition example_fs :: filesystem where
  "example_fs dir filename =
     (if filename = ''a.env'' then Inr (Inr (''X=new'' @ [newline] @ ''A=1''))
      else if filename = ''b.env'' then Inr (Inr (''X=newer'' @ [newline] @ ''B=2''))
      else if filename = ''bad.env'' then Inr (Inr (''C=3'' @ [newline] @ ''no separator''))
      else Inl (PathError filename))"

section \<open>Properties of the encoder\<close>

subsection \<open>Escaping\<close>

lemma Replace_single: "Replace s [c] new = concat (map (\<lambda>x. if x = c then new else [x]) s)"
  by (induction s) auto

lemma escape_one: "doubleQuoteEscape [x] = escape_char x"
  by (auto simp: doubleQuoteEscape_def doubleQuoteSpecialChars_def toReplace_def escape_char_def
      backslash_def newline_def carriage_return_def dquote_def backtick_def)

lemma doubleQuoteEscape_append:
  "doubleQuoteEscape (a @ b) = doubleQuoteEscape a @ doubleQuoteEscape b"
  by (simp add: doubleQuoteEscape_def doubleQuoteSpecialChars_def Replace_single)

text \<open>
  C3. For every string \<open>v\<close>, the seven successive replacements of \<^verbatim>\<open>doubleQuoteEscape\<close>
  give what a single pass from left to right over \<open>v\<close> gives, in which a backslash, a
  double quote, \<^verbatim>\<open>!\<close>, \<^verbatim>\<open>$\<close> and a backtick get a backslash in front, a newline
  becomes backslash \<^verbatim>\<open>n\<close>, a carriage return becomes backslash \<^verbatim>\<open>r\<close>, and every other
  character stays: each special character of \<open>v\<close> is escaped once, and no backslash
  that an escape brought in is escaped again.
\<close>

theorem doubleQuoteEscape_single_pass: "doubleQuoteEscape v = single_pass_escape v"
proof (induction v)
  case Nil
  show ?case
    by (simp add: doubleQuoteEscape_def doubleQuoteSpecialChars_def single_pass_escape_def)
next
  case (Cons x v)
  have "doubleQuoteEscape (x # v) = doubleQuoteEscape [x] @ doubleQuoteEscape v"
    using doubleQuoteEscape_append [of "[x]" v] by simp
  then show ?case
    using Cons by (simp add: escape_one single_pass_escape_def)
qed

subsection \<open>The lines of Marshal\<close>

lemma digits_of_nonempty: "digits_of n \<noteq> []"
  by (subst digits_of.simps) simp

lemma digit_char_not_newline: "k < 10 \<Longrightarrow> char_of (48 + (k::nat)) \<noteq> newline"
proof
  assume k: "k < 10" and eq: "char_of (48 + k) = newline"
  have "(of_char (char_of (48 + k)) :: nat) = of_char newline"
    using eq by simp
  then have "(48 + k) mod 256 = 10"
    by (simp add: newline_def)
  with k show False by simp
qed

lemma last_digits_of: "last (digits_of n) \<noteq> newline"
proof (cases "n < 10")
  case True
  then show ?thesis by (subst digits_of.simps) (simp add: digit_char_not_newline)
next
  case False
  then show ?thesis by (subst digits_of.simps) (simp add: digit_char_not_newline)
qed

lemma format_int_end: "format_int d \<noteq> [] \<and> last (format_int d) \<noteq> newline"
  by (simp add: format_int_def digits_of_nonempty last_digits_of)

lemma marshal_line_end: "marshal_line e \<noteq> [] \<and> last (marshal_line e) \<noteq> newline"
proof (cases e)
  case (Pair k v)
  show ?thesis
  proof (cases "Atoi v")
    case None
    with Pair show ?thesis by (simp add: marshal_line_def dquote_def newline_def)
  next
    case (Some d)
    have "marshal_line e = (k @ ''='') @ format_int d"
      using Pair Some by (simp add: marshal_line_def)
    then show ?thesis
      using format_int_end [of d] by (simp only: last_appendR append_is_Nil_conv) simp
  qed
qed

lemma Join_end:
  "ls \<noteq> [] \<Longrightarrow> \<forall>l\<in>set ls. l \<noteq> [] \<and> last l \<noteq> c \<Longrightarrow>
     Join ls sep \<noteq> [] \<and> last (Join ls sep) \<noteq> c"
proof (induction ls sep rule: Join.induct)
  case (1 sep)
  then show ?case by simp
next
  case (2 a sep)
  then show ?case by simp
next
  case (3 a b elems sep)
  then have "Join (b # elems) sep \<noteq> [] \<and> last (Join (b # elems) sep) \<noteq> c"
    by simp
  moreover have "Join (a # b # elems) sep = (a @ sep) @ Join (b # elems) sep"
    by simp
  ultimately show ?case
    by (simp only: last_appendR append_is_Nil_conv) simp
qed

lemma Join_followed:
  "ls \<noteq> [] \<Longrightarrow> Join ls sep @ sep = concat (map (\<lambda>l. l @ sep) ls)"
  by (induction ls sep rule: Join.induct) simp_all

lemma no_trailing: "\<not> suffix [newline] (fst (Marshal es))"
proof (cases "es = []")
  case True
  then show ?thesis by (simp add: Marshal_def)
next
  case False
  let ?ls = "sort (map marshal_line es)"
  have "?ls \<noteq> []" using False by (metis length_map length_sort length_0_conv)
  moreover have "\<forall>l\<in>set ?ls. l \<noteq> [] \<and> last l \<noteq> newline"
    by (auto simp: marshal_line_end)
  ultimately have "Join ?ls [newline] \<noteq> [] \<and> last (Join ?ls [newline]) \<noteq> newline"
    by (rule Join_end)
  then show ?thesis by (auto simp: Marshal_def suffix_def)
qed

lemma entries_mset:
  assumes "distinct (map fst es)" "distinct (map fst es')" "map_of es = map_of es'"
  shows "mset es = mset es'"
proof -
  have "set es = set es'" using assms by (simp add: map_of_inject_set)
  moreover have "distinct es" "distinct es'" using assms by (auto simp: distinct_map)
  ultimately show ?thesis by (simp add: set_eq_iff_mset_eq_distinct)
qed

lemma sort_mset_cong: "mset xs = mset ys \<Longrightarrow> sort xs = sort (ys :: string list)"
  by (metis properties_for_sort sorted_sort mset_sort)

text \<open>
  C4. The text of \<^verbatim>\<open>Marshal\<close> is made of the emitted lines, each of them once, sorted
  as whole lines in the byte-wise lexicographic order; in the text every line but the
  last is followed by exactly one newline, and the last by nothing (the text with a
  newline added is the concatenation of the lines, each with its newline), so the text
  never ends in a newline. The error is nil. Two orders in which the same map can be
  ranged over (entry lists with distinct keys that are the same map) give the same
  text.
\<close>

theorem Marshal_sorted_deterministic:
  assumes "distinct (map fst es)" "distinct (map fst es')" "map_of es = map_of es'"
  shows "(\<exists>lines. sorted lines \<and> mset lines = mset (map marshal_line es)
            \<and> Marshal es = (Join lines [newline], None)
            \<and> fst (Marshal es) @ (if lines = [] then [] else [newline])
                 = concat (map (\<lambda>line. line @ [newline]) lines))
       \<and> \<not> suffix [newline] (fst (Marshal es))
       \<and> Marshal es' = Marshal es"
proof -
  let ?lines = "sort (map marshal_line es)"
  have j: "fst (Marshal es) @ (if ?lines = [] then [] else [newline])
                 = concat (map (\<lambda>line. line @ [newline]) ?lines)"
  proof (cases "?lines = []")
    case True
    then show ?thesis by (simp add: Marshal_def)
  next
    case False
    then show ?thesis using Join_followed [OF False, of "[newline]"]
      by (simp add: Marshal_def)
  qed
  have a: "\<exists>lines. sorted lines \<and> mset lines = mset (map marshal_line es)
            \<and> Marshal es = (Join lines [newline], None)
            \<and> fst (Marshal es) @ (if lines = [] then [] else [newline])
                 = concat (map (\<lambda>line. line @ [newline]) lines)"
  proof (intro exI [of _ ?lines] conjI)
    show "sorted ?lines" by simp
    show "mset ?lines = mset (map marshal_line es)" by simp
    show "Marshal es = (Join ?lines [newline], None)" by (simp add: Marshal_def)
    show "fst (Marshal es) @ (if ?lines = [] then [] else [newline])
                 = concat (map (\<lambda>line. line @ [newline]) ?lines)" by (rule j)
  qed
  have "mset es' = mset es"
    using entries_mset [OF assms] by (rule sym)
  then have "mset (map marshal_line es') = mset (map marshal_line es)"
    by (simp only: mset_map)
  then have "sort (map marshal_line es') = sort (map marshal_line es)"
    by (rule sort_mset_cong)
  then have c: "Marshal es' = Marshal es"
    by (simp add: Marshal_def)
  show ?thesis by (rule conjI [OF a conjI [OF no_trailing c]])
qed

lemma line_B: "marshal_line (''B'', ''x'') = ''B='' @ [dquote] @ ''x'' @ [dquote]"
  by code_simp

lemma line_A: "marshal_line (''A'', ''1'') = ''A=1''"
  by code_simp

lemma ex_text:
  "Marshal [(''B'', ''x''), (''A'', ''1'')]
     = (''A=1'' @ [newline] @ ''B='' @ [dquote] @ ''x'' @ [dquote], None)"
  by (simp add: Marshal_def line_A line_B)

theorem Marshal_sorted_deterministic_witness:
  "(\<exists>lines. sorted lines \<and> mset lines = mset (map marshal_line [(''B'', ''x''), (''A'', ''1'')])
            \<and> Marshal [(''B'', ''x''), (''A'', ''1'')] = (Join lines [newline], None)
            \<and> fst (Marshal [(''B'', ''x''), (''A'', ''1'')]) @ (if lines = [] then [] else [newline])
                 = concat (map (\<lambda>line. line @ [newline]) lines))
   \<and> \<not> suffix [newline] (fst (Marshal [(''B'', ''x''), (''A'', ''1'')]))
   \<and> Marshal [(''A'', ''1''), (''B'', ''x'')] = Marshal [(''B'', ''x''), (''A'', ''1'')]
   \<and> Marshal [(''B'', ''x''), (''A'', ''1'')]
       = (''A=1'' @ [newline] @ ''B='' @ [dquote] @ ''x'' @ [dquote], None)"
proof -
  have m: "map_of [(''B'', ''x''), (''A'', ''1'')] = map_of [(''A'', ''1''), (''B'', ''x'')]"
    by (rule ext) simp
  have d1: "distinct (map fst [(''B'', ''x''), (''A'', ''1'')])" by simp
  have d2: "distinct (map fst [(''A'', ''1''), (''B'', ''x'')])" by simp
  note inst = Marshal_sorted_deterministic [OF d1 d2 m]
  show ?thesis
    by (intro conjI inst [THEN conjunct1] inst [THEN conjunct2, THEN conjunct1]
          inst [THEN conjunct2, THEN conjunct2] ex_text)
qed

subsection \<open>Values that read as integers\<close>

text \<open>
  C2. \<^verbatim>\<open>Marshal\<close> takes the unquoted form whenever \<^verbatim>\<open>strconv.Atoi\<close> accepts the value,
  and prints the integer that was read, not the value: \<^verbatim>\<open>{N: "042"}\<close> is encoded as
  \<^verbatim>\<open>N=42\<close>, the same text as for \<^verbatim>\<open>{N: "42"}\<close>, and \<^verbatim>\<open>{N: "+5"}\<close> as \<^verbatim>\<open>N=5\<close>.
\<close>

theorem Marshal_leading_zero:
  "Marshal [(''N'', ''42'')] = (''N=42'', None)
   \<and> Marshal [(''N'', ''042'')] = (''N=42'', None)
   \<and> Marshal [(''N'', ''+5'')] = (''N=5'', None)"
  by code_simp

text \<open>
  C1. Whatever the decoder is, decoding the encoded text cannot give back both
  \<^verbatim>\<open>{N: "042"}\<close> and \<^verbatim>\<open>{N: "42"}\<close>, since the two maps are encoded as the same text.
\<close>

theorem Unmarshal_Marshal_not_both:
  "\<not> (map_of (fst (Unmarshal parseBytes env (fst (Marshal [(''N'', ''042'')])))) ''N''
          = Some ''042''
      \<and> map_of (fst (Unmarshal parseBytes env (fst (Marshal [(''N'', ''42'')])))) ''N''
          = Some ''42'')"
proof -
  have "fst (Marshal [(''N'', ''042'')]) = fst (Marshal [(''N'', ''42'')])"
    by code_simp
  then show ?thesis by auto
qed

section \<open>Properties of the file-loading operations\<close>

subsection \<open>The environment\<close>

lemma Split_nonempty: "sep \<noteq> [] \<Longrightarrow> Split s sep \<noteq> []"
  by (induction s sep rule: Split.induct) (auto split: list.splits)

lemma hd_Split_eq: "hd (Split l ''='') = entry_key l"
proof (induction l)
  case Nil
  show ?case by (simp add: entry_key_def)
next
  case (Cons c l)
  have ne: "Split l ''='' \<noteq> []" by (rule Split_nonempty) simp
  show ?case
  proof (cases "c = CHR ''=''")
    case True
    then show ?thesis by (simp add: entry_key_def)
  next
    case False
    then show ?thesis using Cons ne
      by (cases "Split l ''=''") (simp_all add: entry_key_def)
  qed
qed

lemma currentEnv_eq: "currentEnv env = entry_key ` set (Environ env)"
  by (simp add: currentEnv_def hd_Split_eq)

lemma entry_key_new: "CHR ''='' \<notin> set key \<Longrightarrow> entry_key (key @ CHR ''='' # value) = key"
  by (induction key) (auto simp: entry_key_def)

lemma entry_value_new: "CHR ''='' \<notin> set key \<Longrightarrow> entry_value (key @ CHR ''='' # value) = value"
  by (induction key) (auto simp: entry_value_def)

lemma is_entry_of_new:
  "CHR ''='' \<notin> set key \<Longrightarrow> is_entry_of key' (key @ CHR ''='' # value) = (key' = key)"
  by (auto simp: is_entry_of_def entry_key_new)

lemma LookupEnv_in_currentEnv: "LookupEnv env key = Some v \<Longrightarrow> key \<in> currentEnv env"
proof (induction env)
  case Nil
  then show ?case by simp
next
  case (Cons entry env)
  show ?case
  proof (cases "key \<noteq> [] \<and> is_entry_of key entry")
    case True
    then have "entry \<noteq> []" "entry_key entry = key" by (auto simp: is_entry_of_def)
    then show ?thesis by (auto simp: currentEnv_eq Environ_def)
  next
    case False
    then have "LookupEnv env key = Some v" using Cons.prems by auto
    then have "key \<in> currentEnv env" by (rule Cons.IH)
    then show ?thesis by (auto simp: currentEnv_eq Environ_def)
  qed
qed

lemma LookupEnv_empty_key: "LookupEnv env [] = None"
  by (induction env) simp_all

lemma LookupEnv_key:
  "LookupEnv env key = Some v \<Longrightarrow> key \<noteq> [] \<and> CHR ''='' \<notin> set key"
proof (induction env)
  case Nil
  then show ?case by simp
next
  case (Cons entry env)
  show ?case
  proof (cases "key \<noteq> [] \<and> is_entry_of key entry")
    case True
    then have "key = takeWhile (\<lambda>ch. ch \<noteq> CHR ''='') entry"
      by (simp add: is_entry_of_def entry_key_def)
    then have "CHR ''='' \<notin> set key"
      by (metis set_takeWhileD)
    then show ?thesis using True by simp
  next
    case False
    then have "LookupEnv env key = Some v" using Cons.prems by auto
    then show ?thesis by (rule Cons.IH)
  qed
qed

lemma LookupEnv_put_same:
  "key \<noteq> [] \<Longrightarrow> CHR ''='' \<notin> set key \<Longrightarrow> LookupEnv (put_entry key value env) key = Some value"
  by (induction env) (auto simp: is_entry_of_new entry_value_new)

lemma LookupEnv_put_other:
  "CHR ''='' \<notin> set key \<Longrightarrow> key' \<noteq> key \<Longrightarrow>
     LookupEnv (put_entry key value env) key' = LookupEnv env key'"
proof (induction env)
  case Nil
  then show ?case by (simp add: is_entry_of_new)
next
  case (Cons entry env)
  show ?case
  proof (cases "is_entry_of key entry")
    case True
    then have "\<not> is_entry_of key' entry"
      using Cons.prems by (auto simp: is_entry_of_def)
    then show ?thesis using True Cons.prems by (simp add: is_entry_of_new)
  next
    case False
    then show ?thesis using Cons by (simp add: LookupEnv_empty_key)
  qed
qed

lemma currentEnv_put:
  "CHR ''='' \<notin> set key \<Longrightarrow> currentEnv (put_entry key value env) = insert key (currentEnv env)"
proof (induction env)
  case Nil
  then show ?case by (simp add: currentEnv_eq Environ_def entry_key_new)
next
  case (Cons entry env)
  show ?case
  proof (cases "is_entry_of key entry")
    case True
    then have "entry \<noteq> []" "entry_key entry = key" by (auto simp: is_entry_of_def)
    then show ?thesis using True Cons.prems
      by (auto simp: currentEnv_eq Environ_def entry_key_new)
  next
    case False
    then show ?thesis using Cons
      by (auto simp: currentEnv_eq Environ_def)
  qed
qed

lemma Setenv_same:
  "Setenv_accepts key value \<Longrightarrow> LookupEnv (snd (Setenv key value env)) key = Some value"
  by (simp add: Setenv_def Setenv_accepts_def LookupEnv_put_same)

lemma Setenv_other:
  "key' \<noteq> key \<Longrightarrow> LookupEnv (snd (Setenv key value env)) key' = LookupEnv env key'"
  by (simp add: Setenv_def Setenv_accepts_def LookupEnv_put_other)

lemma currentEnv_Setenv:
  "currentEnv (snd (Setenv key value env)) =
     (if Setenv_accepts key value then insert key (currentEnv env) else currentEnv env)"
  by (simp add: Setenv_def Setenv_accepts_def currentEnv_put)

subsection \<open>The loops over the file names\<close>

lemma LoadFrom_loop_batch:
  "LoadFrom_loop parseBytes fs dir strict files loaded env =
     batch (load_step parseBytes fs dir False) strict files loaded env"
  by (induction files arbitrary: loaded env) (auto simp: load_step_def split: prod.splits option.splits)

lemma OverloadFrom_loop_batch:
  "OverloadFrom_loop parseBytes fs dir strict files loaded env =
     batch (load_step parseBytes fs dir True) strict files loaded env"
  by (induction files arbitrary: loaded env) (auto simp: load_step_def split: prod.splits option.splits)

lemma ReadFrom_loop_batch:
  "ReadFrom_loop parseBytes fs env dir strict files loaded envMap =
     (case batch (read_step parseBytes fs env dir) strict files loaded envMap of
        (err, m) \<Rightarrow> (Some m, err))"
  by (induction files arbitrary: loaded envMap)
     (auto simp: read_step_def split: prod.splits option.splits)

lemma state_after_Cons:
  "state_after step (f # files) s = state_after step files (snd (step f s))"
  by (simp add: state_after_def)

lemma state_after_Nil: "state_after step [] s = s"
  by (simp add: state_after_def)

lemma state_after_append:
  "state_after step (xs @ ys) s = state_after step ys (state_after step xs s)"
  by (simp add: state_after_def)

lemma batch_strict_abort:
  "every_file_ok step pre s \<Longrightarrow> step f (state_after step pre s) = (Some e, s') \<Longrightarrow>
     batch step True (pre @ f # rest) loaded s = (Some e, s')"
  by (induction pre arbitrary: s loaded)
     (auto simp: state_after_Cons state_after_Nil split: prod.splits option.splits)

lemma batch_nonstrict:
  "batch step False files loaded s =
     (if loaded \<or> some_file_ok step files s then None else Some noEnvFileLoadedErr,
      state_after step files s)"
  by (induction files arbitrary: s loaded)
     (auto simp: state_after_Cons state_after_Nil split: prod.splits option.splits)

lemma batch_strict_no_error:
  "batch step True files loaded s = (None, s1) \<Longrightarrow>
     every_file_ok step files s \<and> s1 = state_after step files s"
  by (induction files arbitrary: s loaded)
     (auto simp: state_after_Cons state_after_Nil split: prod.splits option.splits if_splits)

lemma batch_invariant:
  "(\<And>f s. P s \<Longrightarrow> P (snd (step f s))) \<Longrightarrow> P s \<Longrightarrow> P (snd (batch step strict files loaded s))"
proof (induction files arbitrary: s loaded)
  case Nil
  then show ?case by simp
next
  case (Cons f files)
  have "P (snd (step f s))" using Cons.prems by blast
  then show ?case using Cons.IH Cons.prems(1)
    by (cases "step f s") (auto split: option.splits)
qed

lemma state_after_invariant_on:
  "(\<And>f s. f \<in> set files \<Longrightarrow> P s \<Longrightarrow> P (snd (step f s))) \<Longrightarrow> P s \<Longrightarrow>
     P (state_after step files s)"
  by (induction files arbitrary: s) (auto simp: state_after_Cons state_after_Nil)




lemma filenamesOrDefault_id: "filenames \<noteq> [] \<Longrightarrow> filenamesOrDefault filenames = filenames"
  by (simp add: filenamesOrDefault_def)

lemma batch_strict_first_failure:
  assumes "files = pre @ f # rest"
    and "every_file_ok step pre s"
    and "fst (step f (state_after step pre s)) = Some e"
    and "snd (step f (state_after step pre s)) = state_after step pre s"
  shows "batch step True files loaded s = (Some e, state_after step pre s)"
proof -
  have "step f (state_after step pre s) = (Some e, state_after step pre s)"
    using assms(3,4) by (cases "step f (state_after step pre s)") simp
  then show ?thesis using assms(1,2) by (simp add: batch_strict_abort)
qed

lemma batch_strict_extend:
  assumes "batch step True pre loaded s = (None, s1)"
    and "fst (step f s1) = Some e" and "snd (step f s1) = s1"
  shows "batch step True (pre @ f # rest) loaded' s = (Some e, s1)"
proof -
  have ok: "every_file_ok step pre s" and s1: "s1 = state_after step pre s"
    using batch_strict_no_error [OF assms(1)] by simp_all
  show ?thesis
    using ok assms(2,3) unfolding s1 by (intro batch_strict_first_failure) simp_all
qed

lemma op_batch:
  "(if overload then OverloadFrom parseBytes fs dir else LoadFrom parseBytes fs dir)
      strict filenames env =
     batch (load_step parseBytes fs dir overload) strict (filenamesOrDefault filenames) False env"
  by (simp add: LoadFrom_def OverloadFrom_def LoadFrom_loop_batch OverloadFrom_loop_batch)

lemma ReadFrom_batch:
  "ReadFrom parseBytes fs env dir strict filenames =
     (Some (snd (batch (read_step parseBytes fs env dir) strict
                    (filenamesOrDefault filenames) False Map.empty)),
      fst (batch (read_step parseBytes fs env dir) strict
                    (filenamesOrDefault filenames) False Map.empty))"
  by (simp add: ReadFrom_def ReadFrom_loop_batch split: prod.splits)

lemma LoadFrom_batch:
  "LoadFrom parseBytes fs dir strict filenames env =
     batch (load_step parseBytes fs dir False) strict (filenamesOrDefault filenames) False env"
  by (simp add: LoadFrom_def LoadFrom_loop_batch)

lemma OverloadFrom_batch:
  "OverloadFrom parseBytes fs dir strict filenames env =
     batch (load_step parseBytes fs dir True) strict (filenamesOrDefault filenames) False env"
  by (simp add: OverloadFrom_def OverloadFrom_loop_batch)

subsection \<open>One file\<close>

lemma loadFile_error:
  "fst (loadFile parseBytes fs dir filename overload env) =
     snd (readFile parseBytes fs env dir filename)"
  by (simp add: loadFile_def split: prod.splits option.splits)

lemma fold_Setenv_untouched:
  "key \<notin> fst ` set m \<or> (key \<in> S \<and> \<not> overload) \<Longrightarrow>
     LookupEnv (fold (set_entry S overload) m env) key
       = LookupEnv env key"
proof (induction m arbitrary: env)
  case Nil
  show ?case by simp
next
  case (Cons kv m)
  obtain k v where kv: "kv = (k, v)" by (cases kv)
  have rest: "key \<notin> fst ` set m \<or> (key \<in> S \<and> \<not> overload)"
    using Cons.prems by auto
  show ?case
  proof (cases "k \<notin> S \<or> overload")
    case True
    then have "k \<noteq> key" using Cons.prems kv by auto
    then have "LookupEnv (snd (Setenv k v env)) key = LookupEnv env key"
      by (simp add: Setenv_other)
    then show ?thesis using True kv Cons.IH [OF rest, of "snd (Setenv k v env)"]
      by (simp add: set_entry_def)
  next
    case False
    then show ?thesis using kv Cons.IH [OF rest, of env] by (simp add: set_entry_def)
  qed
qed

lemma fold_Setenv_sets:
  "distinct (map fst m) \<Longrightarrow> (key, value) \<in> set m \<Longrightarrow> key \<notin> S \<or> overload \<Longrightarrow>
     Setenv_accepts key value \<Longrightarrow>
     LookupEnv (fold (set_entry S overload) m env) key
       = Some value"
proof (induction m arbitrary: env)
  case Nil
  then show ?case by simp
next
  case (Cons kv m)
  obtain k v where kv: "kv = (k, v)" by (cases kv)
  show ?case
  proof (cases "kv = (key, value)")
    case True
    then have "key \<notin> fst ` set m" using Cons.prems(1) by force
    then have "LookupEnv (fold (set_entry S overload) m
                 (snd (Setenv key value env))) key = LookupEnv (snd (Setenv key value env)) key"
      by (simp add: fold_Setenv_untouched)
    then show ?thesis using True Cons.prems(3,4) by (simp add: Setenv_same set_entry_def)
  next
    case False
    then have "(key, value) \<in> set m" using Cons.prems(2) by simp
    moreover have "distinct (map fst m)" using Cons.prems(1) by simp
    ultimately show ?thesis using Cons.IH Cons.prems(3,4) by simp
  qed
qed

lemma fold_Setenv_keys:
  "currentEnv env \<subseteq>
     currentEnv (fold (set_entry S overload) m env)"
proof (induction m arbitrary: env)
  case Nil
  show ?case by simp
next
  case (Cons kv m)
  obtain k v where kv: "kv = (k, v)" by (cases kv)
  have "currentEnv env \<subseteq> currentEnv (snd (Setenv k v env))"
    by (auto simp: currentEnv_Setenv)
  then show ?case using kv Cons.IH [of "snd (Setenv k v env)"] Cons.IH [of env]
    by (auto simp: set_entry_def split: if_splits)
qed


lemma loadFile_keys:
  "currentEnv env \<subseteq> currentEnv (snd (loadFile parseBytes fs dir filename overload env))"
  by (cases "readFile parseBytes fs env dir filename")
     (auto simp: loadFile_def fold_Setenv_keys [THEN subsetD] split: option.splits)

lemma loadFile_keeps_present:
  assumes "key \<in> currentEnv env"
  shows "LookupEnv (snd (loadFile parseBytes fs dir filename False env)) key = LookupEnv env key"
proof (cases "readFile parseBytes fs env dir filename")
  case (Pair envMap err)
  show ?thesis
  proof (cases err)
    case None
    then show ?thesis
      using Pair assms fold_Setenv_untouched [of key "entries envMap" "currentEnv env" False env]
      by (simp add: loadFile_def)
  next
    case (Some e)
    then show ?thesis using Pair by (simp add: loadFile_def)
  qed
qed

lemma LoadFrom_keeps_present:
  assumes "key \<in> currentEnv env"
  shows "LookupEnv (snd (LoadFrom parseBytes fs dir strict filenames env)) key = LookupEnv env key"
proof -
  let ?P = "\<lambda>e. key \<in> currentEnv e \<and> LookupEnv e key = LookupEnv env key"
  have step: "\<And>f s. ?P s \<Longrightarrow> ?P (snd (load_step parseBytes fs dir False f s))"
    using loadFile_keys loadFile_keeps_present by (fastforce simp: load_step_def)
  have "?P (snd (batch (load_step parseBytes fs dir False) strict
                  (filenamesOrDefault filenames) False env))"
    by (rule batch_invariant [where P = ?P, OF step]) (simp_all add: assms)
  then show ?thesis by (simp add: LoadFrom_def LoadFrom_loop_batch)
qed

lemma fold_set_entry_filter:
  "fold (set_entry S False) m env =
     fold (\<lambda>(key, value) e. snd (Setenv key value e)) (filter (\<lambda>(key, value). key \<notin> S) m) env"
  by (induction m arbitrary: env) (auto simp: set_entry_def)

lemma Load_single:
  "Load parseBytes fs strict [filename] env =
     (case loadFile parseBytes fs ''./'' filename False env of
        (None, env') \<Rightarrow> (None, env')
      | (Some err, env') \<Rightarrow> (if strict then Some err else Some noEnvFileLoadedErr, env'))"
  by (simp add: Load_def LoadFrom_def filenamesOrDefault_def split: prod.splits option.splits)

lemma Overload_single:
  "Overload parseBytes fs strict [filename] env =
     (case loadFile parseBytes fs ''./'' filename True env of
        (None, env') \<Rightarrow> (None, env')
      | (Some err, env') \<Rightarrow> (if strict then Some err else Some noEnvFileLoadedErr, env'))"
  by (simp add: Overload_def OverloadFrom_def filenamesOrDefault_def split: prod.splits option.splits)

lemma load_step_failed:
  "fst (load_step parseBytes fs dir overload f env) \<noteq> None \<Longrightarrow>
     snd (load_step parseBytes fs dir overload f env) = env"
  by (cases "readFile parseBytes fs env dir f")
     (auto simp: load_step_def loadFile_def split: option.splits)

lemma read_step_failed:
  "fst (read_step parseBytes fs env dir f m) \<noteq> None \<Longrightarrow>
     snd (read_step parseBytes fs env dir f m) = m"
  by (cases "readFile parseBytes fs env dir f")
     (auto simp: read_step_def split: option.splits)

lemma read_step_error:
  "fst (read_step parseBytes fs env dir f m) = snd (readFile parseBytes fs env dir f)"
  by (cases "readFile parseBytes fs env dir f")
     (auto simp: read_step_def split: option.splits)

lemma fold_update_untouched:
  "key \<notin> fst ` set m \<Longrightarrow> fold store_entry m M key = M key"
  by (induction m arbitrary: M) (auto simp: store_entry_def)

lemma fold_update_sets:
  "distinct (map fst m) \<Longrightarrow> (key, value) \<in> set m \<Longrightarrow>
     fold store_entry m M key = Some value"
proof (induction m arbitrary: M)
  case Nil
  then show ?case by simp
next
  case (Cons kv m)
  show ?case
  proof (cases "kv = (key, value)")
    case True
    then have "key \<notin> fst ` set m" using Cons.prems(1) by force
    then have "fold store_entry m (store_entry kv M) key = store_entry kv M key"
      by (rule fold_update_untouched)
    then show ?thesis using True by (simp add: store_entry_def)
  next
    case False
    then show ?thesis using Cons by auto
  qed
qed

lemma read_step_sets:
  assumes "readFile parseBytes fs env dir f = (Some m, None)"
    and "distinct (map fst m)" and "(key, value) \<in> set m"
  shows "snd (read_step parseBytes fs env dir f M) key = Some value"
  using assms by (simp add: read_step_def entries_def fold_update_sets)

lemma read_step_untouched:
  assumes "snd (readFile parseBytes fs env dir g) = None \<longrightarrow>
             key \<notin> keys_of (fst (readFile parseBytes fs env dir g))"
  shows "snd (read_step parseBytes fs env dir g M) key = M key"
  using assms
  by (cases "readFile parseBytes fs env dir g")
     (auto simp: read_step_def keys_of_def fold_update_untouched split: option.splits)

lemma load_step_sets:
  assumes "readFile parseBytes fs env dir f = (Some m, None)"
    and "distinct (map fst m)" and "(key, value) \<in> set m"
    and "Setenv_accepts key value" and "key \<notin> currentEnv env \<or> overload"
  shows "LookupEnv (snd (load_step parseBytes fs dir overload f env)) key = Some value"
  using assms by (simp add: load_step_def loadFile_def entries_def fold_Setenv_sets)




lemma Read_later_wins:
  assumes files: "files = pre @ f # post"
    and decoded: "readFile parseBytes fs env dir f = (Some m, None)"
    and keys: "distinct (map fst m)" and entry: "(k, v) \<in> set m"
    and later: "\<forall>g\<in>set post. snd (readFile parseBytes fs env dir g) = None \<longrightarrow>
                  k \<notin> keys_of (fst (readFile parseBytes fs env dir g))"
  shows "state_after (read_step parseBytes fs env dir) files M k = Some v"
proof -
  let ?step = "read_step parseBytes fs env dir"
  let ?M1 = "snd (?step f (state_after ?step pre M))"
  have "?M1 k = Some v"
    using decoded keys entry by (rule read_step_sets)
  then have "state_after ?step post ?M1 k = Some v"
    using later
    by (intro state_after_invariant_on [where P = "\<lambda>M. M k = Some v"])
       (simp_all add: read_step_untouched)
  then show ?thesis
    by (simp add: files state_after_append state_after_Cons)
qed

subsection \<open>The example files\<close>

lemma read_a: "readFile plain_decoder example_fs env dir ''a.env'' = (Some [(''X'', ''new''), (''A'', ''1'')], None)"
  by (simp add: readFile_def example_fs_def Parse_def UnmarshalBytes_def plain_decoder_def
      newline_def entry_key_def entry_value_def)

lemma read_b: "readFile plain_decoder example_fs env dir ''b.env'' = (Some [(''X'', ''newer''), (''B'', ''2'')], None)"
  by (simp add: readFile_def example_fs_def Parse_def UnmarshalBytes_def plain_decoder_def
      newline_def entry_key_def entry_value_def)

lemma read_bad: "readFile plain_decoder example_fs env dir ''bad.env'' = (Some [(''C'', ''3'')], Some (SyntaxError ''no separator''))"
  by (simp add: readFile_def example_fs_def Parse_def UnmarshalBytes_def plain_decoder_def
      newline_def entry_key_def entry_value_def)

lemma read_none: "readFile plain_decoder example_fs env dir ''.env'' = (None, Some (PathError ''.env''))"
  by (simp add: readFile_def example_fs_def)

lemma currentEnv_Nil: "currentEnv [] = {}"
  by (simp add: currentEnv_def Environ_def)

lemma currentEnv_Cons:
  "currentEnv (entry # env) =
     (if entry = [] then currentEnv env else insert (entry_key entry) (currentEnv env))"
  by (simp add: currentEnv_eq Environ_def)

lemmas example_eval =
  loadFile_def read_a read_b read_bad read_none entries_def set_entry_def store_entry_def
  Setenv_def Setenv_accepts_def nul_def is_entry_of_def entry_key_def entry_value_def
  currentEnv_Nil currentEnv_Cons filenamesOrDefault_def

subsection \<open>Load and Overload of one file\<close>

text \<open>
  C5. The environment has \<open>X\<close> set to \<open>old\<close>, and the file is read and decoded
  without error into a map that gives \<open>X\<close> the value \<open>new\<close>. Then \<^verbatim>\<open>Load\<close> of that file
  succeeds and leaves \<open>X\<close> equal to \<open>old\<close>, and \<^verbatim>\<open>Overload\<close> of that file succeeds and
  sets \<open>X\<close> to \<open>new\<close>. \<open>X\<close> and \<open>new\<close> are strings that an environment can hold, that
  is, without a NUL byte: \<^verbatim>\<open>os.Setenv\<close> refuses any other, and \<^verbatim>\<open>loadFile\<close> drops its
  error.
\<close>

theorem Load_keeps_Overload_sets:
  assumes set_old: "LookupEnv env X = Some old"
    and decoded: "readFile parseBytes fs env ''./'' filename = (Some m, None)"
    and keys: "distinct (map fst m)"
    and sets_new: "(X, new) \<in> set m"
    and no_nul: "nul \<notin> set X" "nul \<notin> set new"
  shows "fst (Load parseBytes fs strict [filename] env) = None
       \<and> LookupEnv (snd (Load parseBytes fs strict [filename] env)) X = Some old
       \<and> fst (Overload parseBytes fs strict [filename] env) = None
       \<and> LookupEnv (snd (Overload parseBytes fs strict [filename] env)) X = Some new"
proof -
  have accepted: "Setenv_accepts X new"
    using LookupEnv_key [OF set_old] no_nul by (simp add: Setenv_accepts_def)
  have present: "X \<in> currentEnv env"
    using set_old by (rule LookupEnv_in_currentEnv)
  have l: "loadFile parseBytes fs ''./'' filename False env =
             (None, fold (set_entry (currentEnv env) False) m env)"
    using decoded by (simp add: loadFile_def entries_def)
  have o: "loadFile parseBytes fs ''./'' filename True env =
             (None, fold (set_entry (currentEnv env) True) m env)"
    using decoded by (simp add: loadFile_def entries_def)
  have "LookupEnv (fold (set_entry (currentEnv env) False) m env) X = LookupEnv env X"
    using present by (simp add: fold_Setenv_untouched)
  moreover have "LookupEnv (fold (set_entry (currentEnv env) True) m env) X = Some new"
    using keys sets_new accepted by (simp add: fold_Setenv_sets)
  ultimately show ?thesis
    using set_old by (simp add: Load_single Overload_single l o)
qed

theorem Load_keeps_Overload_sets_witness:
  "fst (Load plain_decoder example_fs True [''a.env''] [''X=old'']) = None
   \<and> LookupEnv (snd (Load plain_decoder example_fs True [''a.env''] [''X=old''])) ''X'' = Some ''old''
   \<and> fst (Overload plain_decoder example_fs True [''a.env''] [''X=old'']) = None
   \<and> LookupEnv (snd (Overload plain_decoder example_fs True [''a.env''] [''X=old''])) ''X'' = Some ''new''"
proof -
  have 1: "LookupEnv [''X=old''] ''X'' = Some ''old''"
    by (simp add: is_entry_of_def entry_key_def entry_value_def)
  have 2: "readFile plain_decoder example_fs [''X=old''] ''./'' ''a.env''
             = (Some [(''X'', ''new''), (''A'', ''1'')], None)"
    by (rule read_a)
  have 3: "distinct (map fst [(''X'', ''new''), (''A'', ''1'')])" by simp
  have 4: "(''X'', ''new'') \<in> set [(''X'', ''new''), (''A'', ''1'')]" by simp
  have 5: "nul \<notin> set ''X''" by (simp add: nul_def)
  have 6: "nul \<notin> set ''new''" by (simp add: nul_def)
  show ?thesis by (rule Load_keeps_Overload_sets [OF 1 2 3 4 5 6])
qed

text \<open>
  C8. \<^verbatim>\<open>loadFile\<close> fails exactly when reading or decoding the file fails, and then the
  environment it leaves is the environment it found, whatever the decoder had put in
  the map before it failed. When it succeeds, the environment it leaves comes from the
  one it found by the assignments of the entries of the map, which was decoded in full
  before the first assignment.
\<close>

theorem failing_file_sets_nothing:
  "fst (loadFile parseBytes fs dir filename overload env)
     = snd (readFile parseBytes fs env dir filename)
   \<and> (fst (loadFile parseBytes fs dir filename overload env) \<noteq> None \<longrightarrow>
        snd (loadFile parseBytes fs dir filename overload env) = env)
   \<and> (fst (loadFile parseBytes fs dir filename overload env) = None \<longrightarrow>
        snd (loadFile parseBytes fs dir filename overload env)
          = fold (set_entry (currentEnv env) overload)
              (entries (fst (readFile parseBytes fs env dir filename))) env)"
  by (cases "readFile parseBytes fs env dir filename")
     (auto simp: loadFile_def split: option.splits)

theorem failing_file_sets_nothing_witness:
  "fst (loadFile plain_decoder example_fs ''./'' ''bad.env'' True [''X=old''])
     = snd (readFile plain_decoder example_fs [''X=old''] ''./'' ''bad.env'')
   \<and> fst (readFile plain_decoder example_fs [''X=old''] ''./'' ''bad.env'') = Some [(''C'', ''3'')]
   \<and> fst (loadFile plain_decoder example_fs ''./'' ''bad.env'' True [''X=old''])
        = Some (SyntaxError ''no separator'')
   \<and> snd (loadFile plain_decoder example_fs ''./'' ''bad.env'' True [''X=old'']) = [''X=old'']"
  using failing_file_sets_nothing [of plain_decoder example_fs "''./''" "''bad.env''" True "[''X=old'']"]
  by (simp add: read_bad)

text \<open>
  C10. The set \<^verbatim>\<open>currentEnv\<close> of \<^verbatim>\<open>loadFile\<close> holds, for each entry that \<^verbatim>\<open>os.Environ\<close>
  lists, what comes before its first \<^verbatim>\<open>=\<close>. With \<^verbatim>\<open>overload\<close> false, the entries that
  \<^verbatim>\<open>loadFile\<close> assigns are those of the file whose key is not in that set, so the
  values in the environment play no part. A variable that is set to the empty string is
  still set to the empty string after \<^verbatim>\<open>loadFile\<close> without \<^verbatim>\<open>overload\<close>, and after
  \<^verbatim>\<open>Load\<close> of any files.
\<close>

theorem Load_presence_by_key_name:
  "currentEnv env = entry_key ` set (Environ env)
   \<and> (snd (readFile parseBytes fs env dir filename) = None \<longrightarrow>
        snd (loadFile parseBytes fs dir filename False env)
          = fold (\<lambda>(key, value) e. snd (Setenv key value e))
              (filter (\<lambda>(key, value). key \<notin> entry_key ` set (Environ env))
                 (entries (fst (readFile parseBytes fs env dir filename)))) env)
   \<and> (LookupEnv env X = Some [] \<longrightarrow>
        LookupEnv (snd (loadFile parseBytes fs dir filename False env)) X = Some []
        \<and> LookupEnv (snd (Load parseBytes fs strict filenames env)) X = Some [])"
proof -
  have a: "currentEnv env = entry_key ` set (Environ env)"
    by (rule currentEnv_eq)
  have b: "snd (readFile parseBytes fs env dir filename) = None \<longrightarrow>
        snd (loadFile parseBytes fs dir filename False env)
          = fold (\<lambda>(key, value) e. snd (Setenv key value e))
              (filter (\<lambda>(key, value). key \<notin> entry_key ` set (Environ env))
                 (entries (fst (readFile parseBytes fs env dir filename)))) env"
    by (cases "readFile parseBytes fs env dir filename")
       (simp add: loadFile_def fold_set_entry_filter currentEnv_eq)
  have c: "LookupEnv env X = Some [] \<longrightarrow>
        LookupEnv (snd (loadFile parseBytes fs dir filename False env)) X = Some []
        \<and> LookupEnv (snd (Load parseBytes fs strict filenames env)) X = Some []"
  proof
    assume e: "LookupEnv env X = Some []"
    then have "X \<in> currentEnv env" by (rule LookupEnv_in_currentEnv)
    then show "LookupEnv (snd (loadFile parseBytes fs dir filename False env)) X = Some []
        \<and> LookupEnv (snd (Load parseBytes fs strict filenames env)) X = Some []"
      using e by (simp add: loadFile_keeps_present LoadFrom_keeps_present Load_def)
  qed
  show ?thesis by (rule conjI [OF a conjI [OF b c]])
qed

theorem Load_presence_by_key_name_witness:
  "currentEnv [''X='', ''Y=1''] = {''X'', ''Y''}
   \<and> snd (loadFile plain_decoder example_fs ''./'' ''a.env'' False [''X='', ''Y=1''])
       = [''X='', ''Y=1'', ''A=1'']
   \<and> LookupEnv (snd (Load plain_decoder example_fs False [''a.env''] [''X='', ''Y=1''])) ''X''
       = Some []"
proof -
  let ?env = "[''X='', ''Y=1'']"
  note inst = Load_presence_by_key_name [where env = ?env and parseBytes = plain_decoder and fs = example_fs
                      and dir = "''./''" and filename = "''a.env''" and X = "''X''"
                      and strict = False and filenames = "[''a.env'']"]
  have h: "LookupEnv ?env ''X'' = Some []"
    by (simp add: is_entry_of_def entry_key_def entry_value_def)
  have a: "currentEnv ?env = {''X'', ''Y''}"
    using inst [THEN conjunct1] by (simp add: Environ_def entry_key_def)
  have b: "snd (loadFile plain_decoder example_fs ''./'' ''a.env'' False ?env)
             = [''X='', ''Y=1'', ''A=1'']"
    using inst [THEN conjunct2, THEN conjunct1] by (simp add: example_eval)
  have c: "LookupEnv (snd (Load plain_decoder example_fs False [''a.env''] ?env)) ''X'' = Some []"
    using inst [THEN conjunct2, THEN conjunct2, rule_format, OF h] by simp
  show ?thesis using a b c by simp
qed

subsection \<open>Several files\<close>

text \<open>
  C7. \<^verbatim>\<open>LoadFrom\<close>, \<^verbatim>\<open>OverloadFrom\<close> and \<^verbatim>\<open>ReadFrom\<close> over the list of file names (the
  default name when none is given).
  \<^item> Strict: when the files before \<open>f\<close> all give no error and \<open>f\<close> is the first that
    fails, with the error \<open>e\<close>, the operation returns \<open>e\<close>, and the state it leaves is
    the state after the files before \<open>f\<close>: neither \<open>f\<close> nor any file after it has
    changed anything.
  \<^item> Not strict: the operation returns no error if at least one file, at its turn,
    gives no error, and \<^verbatim>\<open>noEnvFileLoadedErr\<close> otherwise; the state it leaves is the
    state after the turns of all the files, where the turn of a failing file leaves
    the state as it was.
\<close>

theorem strict_stops_non_strict_skips:
  "(filenamesOrDefault filenames = pre @ f # rest \<longrightarrow>
      every_file_ok (load_step parseBytes fs dir overload) pre env \<longrightarrow>
      fst (loadFile parseBytes fs dir f overload
             (state_after (load_step parseBytes fs dir overload) pre env)) = Some e \<longrightarrow>
      (if overload then OverloadFrom parseBytes fs dir else LoadFrom parseBytes fs dir)
         True filenames env
        = (Some e, state_after (load_step parseBytes fs dir overload) pre env))
   \<and> (filenamesOrDefault filenames = pre @ f # rest \<longrightarrow>
      every_file_ok (read_step parseBytes fs env dir) pre Map.empty \<longrightarrow>
      snd (readFile parseBytes fs env dir f) = Some e \<longrightarrow>
      ReadFrom parseBytes fs env dir True filenames
        = (Some (state_after (read_step parseBytes fs env dir) pre Map.empty), Some e))
   \<and> (if overload then OverloadFrom parseBytes fs dir else LoadFrom parseBytes fs dir)
         False filenames env
        = (if some_file_ok (load_step parseBytes fs dir overload) (filenamesOrDefault filenames) env
           then None else Some noEnvFileLoadedErr,
           state_after (load_step parseBytes fs dir overload) (filenamesOrDefault filenames) env)
   \<and> ReadFrom parseBytes fs env dir False filenames
        = (Some (state_after (read_step parseBytes fs env dir)
                   (filenamesOrDefault filenames) Map.empty),
           if some_file_ok (read_step parseBytes fs env dir)
                (filenamesOrDefault filenames) Map.empty
           then None else Some noEnvFileLoadedErr)
   \<and> (fst (loadFile parseBytes fs dir f overload env) \<noteq> None \<longrightarrow>
        snd (load_step parseBytes fs dir overload f env) = env)
   \<and> (snd (readFile parseBytes fs env dir f) \<noteq> None \<longrightarrow>
        snd (read_step parseBytes fs env dir f envMap) = envMap)"
proof (intro conjI impI)
  let ?st = "state_after (load_step parseBytes fs dir overload) pre env"
  assume a: "filenamesOrDefault filenames = pre @ f # rest"
    and b: "every_file_ok (load_step parseBytes fs dir overload) pre env"
    and c: "fst (loadFile parseBytes fs dir f overload
             (state_after (load_step parseBytes fs dir overload) pre env)) = Some e"
  from c have c': "fst (load_step parseBytes fs dir overload f ?st) = Some e"
    by (simp add: load_step_def)
  then have d: "snd (load_step parseBytes fs dir overload f ?st) = ?st"
    by (simp add: load_step_failed)
  show "(if overload then OverloadFrom parseBytes fs dir else LoadFrom parseBytes fs dir)
         True filenames env
        = (Some e, state_after (load_step parseBytes fs dir overload) pre env)"
    unfolding op_batch by (rule batch_strict_first_failure [OF a b c' d])
next
  let ?st = "state_after (read_step parseBytes fs env dir) pre Map.empty"
  assume a: "filenamesOrDefault filenames = pre @ f # rest"
    and b: "every_file_ok (read_step parseBytes fs env dir) pre Map.empty"
    and c: "snd (readFile parseBytes fs env dir f) = Some e"
  from c have c': "fst (read_step parseBytes fs env dir f ?st) = Some e"
    by (simp add: read_step_error)
  then have d: "snd (read_step parseBytes fs env dir f ?st) = ?st"
    by (simp add: read_step_failed)
  have "batch (read_step parseBytes fs env dir) True (filenamesOrDefault filenames) False
               Map.empty
             = (Some e, state_after (read_step parseBytes fs env dir) pre Map.empty)"
    by (rule batch_strict_first_failure [OF a b c' d])
  then show "ReadFrom parseBytes fs env dir True filenames
        = (Some (state_after (read_step parseBytes fs env dir) pre Map.empty), Some e)"
    by (simp add: ReadFrom_batch)
next
  show "(if overload then OverloadFrom parseBytes fs dir else LoadFrom parseBytes fs dir)
         False filenames env
        = (if some_file_ok (load_step parseBytes fs dir overload) (filenamesOrDefault filenames) env
           then None else Some noEnvFileLoadedErr,
           state_after (load_step parseBytes fs dir overload) (filenamesOrDefault filenames) env)"
    unfolding op_batch by (simp add: batch_nonstrict)
next
  show "ReadFrom parseBytes fs env dir False filenames
        = (Some (state_after (read_step parseBytes fs env dir)
                   (filenamesOrDefault filenames) Map.empty),
           if some_file_ok (read_step parseBytes fs env dir)
                (filenamesOrDefault filenames) Map.empty
           then None else Some noEnvFileLoadedErr)"
    by (simp add: ReadFrom_batch batch_nonstrict)
next
  assume "fst (loadFile parseBytes fs dir f overload env) \<noteq> None"
  then show "snd (load_step parseBytes fs dir overload f env) = env"
    using load_step_failed [of parseBytes fs dir overload f env] by (simp add: load_step_def)
next
  assume "snd (readFile parseBytes fs env dir f) \<noteq> None"
  then show "snd (read_step parseBytes fs env dir f envMap) = envMap"
    using read_step_failed [of parseBytes fs env dir f envMap] by (simp add: read_step_error)
qed

theorem strict_stops_non_strict_skips_witness:
  "OverloadFrom plain_decoder example_fs ''./'' True [''a.env'', ''bad.env'', ''b.env''] [''X=old'']
     = (Some (SyntaxError ''no separator''), [''X=new'', ''A=1''])
   \<and> ReadFrom plain_decoder example_fs [''X=old''] ''./'' True [''a.env'', ''bad.env'', ''b.env'']
     = (Some [''X'' \<mapsto> ''new'', ''A'' \<mapsto> ''1''], Some (SyntaxError ''no separator''))
   \<and> OverloadFrom plain_decoder example_fs ''./'' False [''a.env'', ''bad.env'', ''b.env''] [''X=old'']
     = (None, [''X=newer'', ''A=1'', ''B=2''])
   \<and> ReadFrom plain_decoder example_fs [''X=old''] ''./'' False [''bad.env'', ''.env'']
     = (Some Map.empty, Some noEnvFileLoadedErr)"
proof -
  let ?files = "[''a.env'', ''bad.env'', ''b.env'']"
  let ?env = "[''X=old'']"
  note inst = strict_stops_non_strict_skips [where filenames = ?files and pre = "[''a.env'']" and f = "''bad.env''"
                     and rest = "[''b.env'']" and parseBytes = plain_decoder
                     and fs = example_fs and dir = "''./''" and overload = True and env = ?env
                     and e = "SyntaxError ''no separator''" and envMap = Map.empty]
  note inst2 = strict_stops_non_strict_skips [where filenames = "[''bad.env'', ''.env'']" and pre = "[]"
                      and f = "''bad.env''" and rest = "[''.env'']"
                      and parseBytes = plain_decoder and fs = example_fs and dir = "''./''"
                      and overload = True and env = ?env
                      and e = "SyntaxError ''no separator''" and envMap = Map.empty]
  have a: "OverloadFrom plain_decoder example_fs ''./'' True ?files ?env
             = (Some (SyntaxError ''no separator''), [''X=new'', ''A=1''])"
    using inst [THEN conjunct1] by (simp add: load_step_def state_after_def example_eval)
  have b: "ReadFrom plain_decoder example_fs ?env ''./'' True ?files
     = (Some [''X'' \<mapsto> ''new'', ''A'' \<mapsto> ''1''], Some (SyntaxError ''no separator''))"
    using inst [THEN conjunct2, THEN conjunct1]
    by (simp add: read_step_def state_after_def example_eval)
  have c: "OverloadFrom plain_decoder example_fs ''./'' False ?files ?env
     = (None, [''X=newer'', ''A=1'', ''B=2''])"
    using inst [THEN conjunct2, THEN conjunct2, THEN conjunct1]
    by (simp add: load_step_def state_after_def example_eval)
  have d: "ReadFrom plain_decoder example_fs ?env ''./'' False [''bad.env'', ''.env'']
     = (Some Map.empty, Some noEnvFileLoadedErr)"
    using inst2 [THEN conjunct2, THEN conjunct2, THEN conjunct2, THEN conjunct1]
    by (simp add: read_step_def state_after_def example_eval)
  show ?thesis using a b c d by simp
qed

text \<open>
  C9. In strict mode, with at least one file before the failing file \<open>f\<close>: if the files
  before \<open>f\<close> alone give the map \<open>M\<close> (the environment \<open>env1\<close>) without error, then
  with \<open>f\<close> and any further files in the list \<^verbatim>\<open>ReadFrom\<close> returns \<open>M\<close>, a map that is
  not nil, together with the error of \<open>f\<close>, and \<^verbatim>\<open>LoadFrom\<close> and \<^verbatim>\<open>OverloadFrom\<close> return
  the error of \<open>f\<close> and leave \<open>env1\<close>. \<open>M\<close> holds every entry of an earlier file whose
  key no file between that file and \<open>f\<close> defines, and after a first file \<open>g\<close> that
  loads and a second that fails, an entry of \<open>g\<close> that was assigned is in the
  environment.
\<close>

theorem strict_abort_keeps_earlier_effects:
  assumes earlier: "pre \<noteq> []"
  shows
    "(ReadFrom parseBytes fs env dir True pre = (Some M, None) \<longrightarrow>
        snd (readFile parseBytes fs env dir f) = Some e \<longrightarrow>
        ReadFrom parseBytes fs env dir True (pre @ f # rest) = (Some M, Some e))
     \<and> (LoadFrom parseBytes fs dir True pre env = (None, env1) \<longrightarrow>
        fst (loadFile parseBytes fs dir f False env1) = Some e \<longrightarrow>
        LoadFrom parseBytes fs dir True (pre @ f # rest) env = (Some e, env1))
     \<and> (OverloadFrom parseBytes fs dir True pre env = (None, env1) \<longrightarrow>
        fst (loadFile parseBytes fs dir f True env1) = Some e \<longrightarrow>
        OverloadFrom parseBytes fs dir True (pre @ f # rest) env = (Some e, env1))
     \<and> (ReadFrom parseBytes fs env dir True pre = (Some M, None) \<longrightarrow>
        pre = before @ g # after \<longrightarrow>
        readFile parseBytes fs env dir g = (Some m, None) \<longrightarrow>
        distinct (map fst m) \<longrightarrow> (k, v) \<in> set m \<longrightarrow>
        (\<forall>h\<in>set after. k \<notin> keys_of (fst (readFile parseBytes fs env dir h))) \<longrightarrow>
        M k = Some v)
     \<and> (readFile parseBytes fs env dir g = (Some m, None) \<longrightarrow>
        distinct (map fst m) \<longrightarrow> (k, v) \<in> set m \<longrightarrow> Setenv_accepts k v \<longrightarrow>
        k \<notin> currentEnv env \<or> overload \<longrightarrow>
        fst (loadFile parseBytes fs dir f overload
               (snd (loadFile parseBytes fs dir g overload env))) = Some e \<longrightarrow>
        (if overload then OverloadFrom parseBytes fs dir else LoadFrom parseBytes fs dir)
            True (g # f # rest) env
          = (Some e, snd (loadFile parseBytes fs dir g overload env))
        \<and> LookupEnv (snd (loadFile parseBytes fs dir g overload env)) k = Some v)"
proof (intro conjI)
  let ?rs = "read_step parseBytes fs env dir"
  show "ReadFrom parseBytes fs env dir True pre = (Some M, None) \<longrightarrow>
        snd (readFile parseBytes fs env dir f) = Some e \<longrightarrow>
        ReadFrom parseBytes fs env dir True (pre @ f # rest) = (Some M, Some e)"
  proof (intro impI)
    assume r: "ReadFrom parseBytes fs env dir True pre = (Some M, None)"
      and bad: "snd (readFile parseBytes fs env dir f) = Some e"
    have "batch ?rs True pre False Map.empty = (None, M)"
      using r earlier by (simp add: ReadFrom_batch filenamesOrDefault_id prod_eq_iff)
    moreover have "fst (?rs f M) = Some e"
      using bad by (simp add: read_step_error)
    moreover from this have "snd (?rs f M) = M"
      by (simp add: read_step_failed)
    ultimately have "batch ?rs True (pre @ f # rest) False Map.empty = (Some e, M)"
      by (rule batch_strict_extend)
    then show "ReadFrom parseBytes fs env dir True (pre @ f # rest) = (Some M, Some e)"
      by (simp add: ReadFrom_batch filenamesOrDefault_id)
  qed
next
  let ?ls = "load_step parseBytes fs dir False"
  show "LoadFrom parseBytes fs dir True pre env = (None, env1) \<longrightarrow>
        fst (loadFile parseBytes fs dir f False env1) = Some e \<longrightarrow>
        LoadFrom parseBytes fs dir True (pre @ f # rest) env = (Some e, env1)"
  proof (intro impI)
    assume "LoadFrom parseBytes fs dir True pre env = (None, env1)"
      and bad: "fst (loadFile parseBytes fs dir f False env1) = Some e"
    then have "batch ?ls True pre False env = (None, env1)"
      using earlier by (simp add: LoadFrom_batch filenamesOrDefault_id)
    moreover have "fst (?ls f env1) = Some e"
      using bad by (simp add: load_step_def)
    moreover from this have "snd (?ls f env1) = env1"
      by (simp add: load_step_failed)
    ultimately have "batch ?ls True (pre @ f # rest) False env = (Some e, env1)"
      by (rule batch_strict_extend)
    then show "LoadFrom parseBytes fs dir True (pre @ f # rest) env = (Some e, env1)"
      by (simp add: LoadFrom_batch filenamesOrDefault_id)
  qed
next
  let ?ls = "load_step parseBytes fs dir True"
  show "OverloadFrom parseBytes fs dir True pre env = (None, env1) \<longrightarrow>
        fst (loadFile parseBytes fs dir f True env1) = Some e \<longrightarrow>
        OverloadFrom parseBytes fs dir True (pre @ f # rest) env = (Some e, env1)"
  proof (intro impI)
    assume "OverloadFrom parseBytes fs dir True pre env = (None, env1)"
      and bad: "fst (loadFile parseBytes fs dir f True env1) = Some e"
    then have "batch ?ls True pre False env = (None, env1)"
      using earlier by (simp add: OverloadFrom_batch filenamesOrDefault_id)
    moreover have "fst (?ls f env1) = Some e"
      using bad by (simp add: load_step_def)
    moreover from this have "snd (?ls f env1) = env1"
      by (simp add: load_step_failed)
    ultimately have "batch ?ls True (pre @ f # rest) False env = (Some e, env1)"
      by (rule batch_strict_extend)
    then show "OverloadFrom parseBytes fs dir True (pre @ f # rest) env = (Some e, env1)"
      by (simp add: OverloadFrom_batch filenamesOrDefault_id)
  qed
next
  let ?rs = "read_step parseBytes fs env dir"
  show "ReadFrom parseBytes fs env dir True pre = (Some M, None) \<longrightarrow>
        pre = before @ g # after \<longrightarrow>
        readFile parseBytes fs env dir g = (Some m, None) \<longrightarrow>
        distinct (map fst m) \<longrightarrow> (k, v) \<in> set m \<longrightarrow>
        (\<forall>h\<in>set after. k \<notin> keys_of (fst (readFile parseBytes fs env dir h))) \<longrightarrow>
        M k = Some v"
  proof (intro impI)
    assume r: "ReadFrom parseBytes fs env dir True pre = (Some M, None)"
      and split: "pre = before @ g # after"
      and decoded: "readFile parseBytes fs env dir g = (Some m, None)"
      and keys: "distinct (map fst m)" and entry: "(k, v) \<in> set m"
      and later: "\<forall>h\<in>set after. k \<notin> keys_of (fst (readFile parseBytes fs env dir h))"
    have "batch ?rs True pre False Map.empty = (None, M)"
      using r earlier by (simp add: ReadFrom_batch filenamesOrDefault_id prod_eq_iff)
    then have M: "M = state_after ?rs pre Map.empty"
      by (rule batch_strict_no_error [THEN conjunct2])
    have later': "\<forall>h\<in>set after. snd (readFile parseBytes fs env dir h) = None \<longrightarrow>
                  k \<notin> keys_of (fst (readFile parseBytes fs env dir h))"
      using later by blast
    have "state_after ?rs pre Map.empty k = Some v"
      by (rule Read_later_wins [OF split decoded keys entry later'])
    then show "M k = Some v" using M by simp
  qed
next
  let ?ls = "load_step parseBytes fs dir overload"
  let ?e1 = "snd (loadFile parseBytes fs dir g overload env)"
  show "readFile parseBytes fs env dir g = (Some m, None) \<longrightarrow>
        distinct (map fst m) \<longrightarrow> (k, v) \<in> set m \<longrightarrow> Setenv_accepts k v \<longrightarrow>
        k \<notin> currentEnv env \<or> overload \<longrightarrow>
        fst (loadFile parseBytes fs dir f overload
               (snd (loadFile parseBytes fs dir g overload env))) = Some e \<longrightarrow>
        (if overload then OverloadFrom parseBytes fs dir else LoadFrom parseBytes fs dir)
            True (g # f # rest) env
          = (Some e, snd (loadFile parseBytes fs dir g overload env))
        \<and> LookupEnv (snd (loadFile parseBytes fs dir g overload env)) k = Some v"
  proof (intro impI)
    assume decoded: "readFile parseBytes fs env dir g = (Some m, None)"
      and keys: "distinct (map fst m)" and entry: "(k, v) \<in> set m"
      and accepted: "Setenv_accepts k v"
      and fresh: "k \<notin> currentEnv env \<or> overload"
      and bad: "fst (loadFile parseBytes fs dir f overload
               (snd (loadFile parseBytes fs dir g overload env))) = Some e"
    have g_ok: "every_file_ok ?ls [g] env"
      using decoded by (simp add: load_step_def loadFile_error)
    have f_bad: "fst (?ls f (state_after ?ls [g] env)) = Some e"
      using bad by (simp add: load_step_def state_after_Cons state_after_Nil)
    then have f_same: "snd (?ls f (state_after ?ls [g] env)) = state_after ?ls [g] env"
      by (simp add: load_step_failed)
    have "batch ?ls True ([g] @ f # rest) False env = (Some e, state_after ?ls [g] env)"
      by (rule batch_strict_first_failure [OF refl g_ok f_bad f_same])
    then have a: "(if overload then OverloadFrom parseBytes fs dir
                 else LoadFrom parseBytes fs dir) True (g # f # rest) env = (Some e, ?e1)"
      unfolding op_batch
      by (simp add: filenamesOrDefault_def state_after_Cons state_after_Nil load_step_def)
    have b: "LookupEnv ?e1 k = Some v"
      using load_step_sets [OF decoded keys entry accepted fresh] by (simp add: load_step_def)
    show "(if overload then OverloadFrom parseBytes fs dir else LoadFrom parseBytes fs dir)
            True (g # f # rest) env
          = (Some e, snd (loadFile parseBytes fs dir g overload env))
        \<and> LookupEnv (snd (loadFile parseBytes fs dir g overload env)) k = Some v"
      using a b by (rule conjI)
  qed
qed

theorem strict_abort_keeps_earlier_effects_witness:
  "ReadFrom plain_decoder example_fs [''X=old''] ''./'' True [''a.env'', ''bad.env'', ''b.env'']
     = (Some [''X'' \<mapsto> ''new'', ''A'' \<mapsto> ''1''], Some (SyntaxError ''no separator''))
   \<and> LoadFrom plain_decoder example_fs ''./'' True [''a.env'', ''bad.env'', ''b.env''] [''X=old'']
     = (Some (SyntaxError ''no separator''), [''X=old'', ''A=1''])
   \<and> OverloadFrom plain_decoder example_fs ''./'' True [''a.env'', ''bad.env'', ''b.env''] [''X=old'']
     = (Some (SyntaxError ''no separator''), [''X=new'', ''A=1''])
   \<and> LookupEnv [''X=new'', ''A=1''] ''X'' = Some ''new''"
proof -
  let ?env = "[''X=old'']"
  let ?e = "SyntaxError ''no separator''"
  have ne: "[''a.env''] \<noteq> []" by simp
  note inst = strict_abort_keeps_earlier_effects [OF ne, where parseBytes = plain_decoder and fs = example_fs and env = ?env
                    and dir = "''./''" and f = "''bad.env''" and e = ?e and rest = "[''b.env'']"]
  have r: "ReadFrom plain_decoder example_fs ?env ''./'' True [''a.env'']
             = (Some [''X'' \<mapsto> ''new'', ''A'' \<mapsto> ''1''], None)"
    by (simp add: ReadFrom_def example_eval)
  have rb: "snd (readFile plain_decoder example_fs ?env ''./'' ''bad.env'') = Some ?e"
    by (simp add: read_bad)
  have l: "LoadFrom plain_decoder example_fs ''./'' True [''a.env''] ?env
             = (None, [''X=old'', ''A=1''])"
    by (simp add: LoadFrom_def example_eval)
  have lb: "fst (loadFile plain_decoder example_fs ''./'' ''bad.env'' False [''X=old'', ''A=1''])
              = Some ?e"
    by (simp add: example_eval)
  have ol: "OverloadFrom plain_decoder example_fs ''./'' True [''a.env''] ?env
             = (None, [''X=new'', ''A=1''])"
    by (simp add: OverloadFrom_def example_eval)
  have ob: "fst (loadFile plain_decoder example_fs ''./'' ''bad.env'' True [''X=new'', ''A=1''])
              = Some ?e"
    by (simp add: example_eval)
  have a: "ReadFrom plain_decoder example_fs ?env ''./'' True [''a.env'', ''bad.env'', ''b.env'']
     = (Some [''X'' \<mapsto> ''new'', ''A'' \<mapsto> ''1''], Some ?e)"
    using inst [THEN conjunct1, rule_format, OF r rb] by simp
  have b: "LoadFrom plain_decoder example_fs ''./'' True [''a.env'', ''bad.env'', ''b.env''] ?env
     = (Some ?e, [''X=old'', ''A=1''])"
    using inst [THEN conjunct2, THEN conjunct1, rule_format, OF l lb] by simp
  have c: "OverloadFrom plain_decoder example_fs ''./'' True [''a.env'', ''bad.env'', ''b.env''] ?env
     = (Some ?e, [''X=new'', ''A=1''])"
    using inst [THEN conjunct2, THEN conjunct2, THEN conjunct1, rule_format, OF ol ob] by simp
  have d: "LookupEnv [''X=new'', ''A=1''] ''X'' = Some ''new''"
    by (simp add: is_entry_of_def entry_key_def entry_value_def)
  show ?thesis using a b c d by simp
qed




end
